theory Spec2Isabelle
  imports Main "HOL-Library.Sublist"
begin

section \<open>The queryable example: examples/z\_queryable\_with\_channels.c\<close>

text \<open>
  The example is glue around the zenoh C API. Its own code is the control flow of
  \<^verbatim>\<open>main\<close> and \<^verbatim>\<open>query_handler\<close>; every API function is a call into the
  library. The embedding keeps the control flow as it is written and makes each library
  call an event of a trace, with the arguments the program passes. What the library
  answers (return codes, the queries the channel delivers) is the environment of a run,
  a record the model takes as a parameter.
\<close>

subsection \<open>Queries as the program reads them\<close>

type_synonym bytes = string

text \<open>
  A query carries a key expression, a parameter string and an optional payload.
  The program reads it only through accessors of the library.
\<close>

record query =
  q_keyexpr :: string
  q_parameters :: string
  q_payload :: "bytes option"

text \<open>\<^verbatim>\<open>z_keyexpr_to_string(z_query_keyexpr(query), &key_string)\<close>\<close>

definition z_query_keyexpr :: "query \<Rightarrow> string" where
  "z_query_keyexpr query = q_keyexpr query"

text \<open>\<^verbatim>\<open>z_query_parameters(query, &params)\<close>\<close>

definition z_query_parameters :: "query \<Rightarrow> string" where
  "z_query_parameters query = q_parameters query"

text \<open>\<^verbatim>\<open>z_bytes_len(payload)\<close>: the number of bytes.\<close>

definition z_bytes_len :: "bytes \<Rightarrow> nat" where
  "z_bytes_len payload = length payload"

text \<open>\<^verbatim>\<open>z_bytes_decode_into_string\<close> and \<^verbatim>\<open>z_bytes_encode_from_string\<close>: a string and
  its bytes are the same characters.\<close>

definition z_bytes_decode_into_string :: "bytes \<Rightarrow> string" where
  "z_bytes_decode_into_string payload = payload"

definition z_bytes_encode_from_string :: "string \<Rightarrow> bytes" where
  "z_bytes_encode_from_string s = s"

text \<open>
  A \<^verbatim>\<open>z_owned_query_t\<close> is either a valid query or the null value that the channel
  stores when it is closed; \<^verbatim>\<open>z_check\<close> tells them apart.
\<close>

type_synonym z_owned_query = "query option"

definition z_check :: "z_owned_query \<Rightarrow> bool" where
  "z_check oquery = (oquery \<noteq> None)"

subsection \<open>The library as the environment of a run\<close>

type_synonym config = "(string \<times> string) list"

text \<open>
  The return codes of the four calls that can fail (negative is failure), the macro
  \<^verbatim>\<open>Z_CONFIG_CONNECT_KEY\<close> of the library's header, the sequence of values that the
  channel's \<^verbatim>\<open>recv\<close> closure stores into \<^verbatim>\<open>oquery\<close>, call after call, and the
  bytes that the payload accessors hand out for a query that carries no payload.
\<close>

record substrate =
  Z_CONFIG_CONNECT_KEY :: string
  zc_config_insert_json :: "string \<Rightarrow> string \<Rightarrow> int"
  z_open :: "config \<Rightarrow> int"
  z_view_keyexpr_from_string :: "string \<Rightarrow> int"
  z_declare_queryable :: "string \<Rightarrow> int"
  recv :: "nat \<Rightarrow> z_owned_query"
  absent_payload :: bytes

text \<open>
  Modelled from the spec: \<^verbatim>\<open>z_value_payload(z_query_value(query))\<close>, two accessors of
  the library whose code is not part of the sources. For a query that carries a payload
  they yield its bytes (the spec's payload bytes). What they yield for a query that
  carries none is said nowhere: it is the environment's \<open>absent_payload\<close>, on which
  the model makes no assumption.
\<close>

definition z_value_payload :: "substrate \<Rightarrow> query \<Rightarrow> bytes" where
  "z_value_payload sub query =
    (case q_payload query of None \<Rightarrow> absent_payload sub | Some b \<Rightarrow> b)"

text \<open>
  The calls the program makes, in the order it makes them. A query is named by the
  number of the \<^verbatim>\<open>recv\<close> call that delivered it: the program holds one owned query
  at a time, in \<^verbatim>\<open>oquery\<close>.
\<close>

datatype event =
    Printf string "string list"
  | Z_config_default
  | Zc_config_insert_json string string
  | Z_open config
  | Z_view_keyexpr_from_string string
  | Zc_query_fifo_new nat
  | Z_declare_queryable string
  | Z_call_recv
  | Z_query_reply nat string bytes
  | Z_drop_query nat
  | Z_undeclare_queryable
  | Z_drop_channel
  | Z_close

subsection \<open>The globals\<close>

text \<open>\<^verbatim>\<open>const char *keyexpr = "demo/example/zenoh-c-queryable";\<close>\<close>

definition keyexpr_default :: string where
  "keyexpr_default = ''demo/example/zenoh-c-queryable''"

text \<open>\<^verbatim>\<open>const char *value = "Queryable from C!";\<close>\<close>

definition value_str :: string where
  "value_str = ''Queryable from C!''"

subsection \<open>main\<close>

text \<open>
  The body of the consumption loop (lines 73 to 103) for the query \<open>query\<close> delivered
  by the \<open>n\<close>-th \<^verbatim>\<open>recv\<close>; \<open>ke\<close> is the global view of the key expression the
  queryable was declared on, \<open>sub\<close> the library that answers the accessors. The accessors, the default reply options and the release
  of the decoded string leave no event; \<^verbatim>\<open>printf\<close>, \<^verbatim>\<open>z_query_reply\<close> and the drop of
  the query do.
\<close>

definition main_loop_body :: "substrate \<Rightarrow> string \<Rightarrow> nat \<Rightarrow> query \<Rightarrow> event list" where
  "main_loop_body sub ke n query =
    (let key_string = z_query_keyexpr query;
         params = z_query_parameters query;
         payload = z_value_payload sub query
     in (if z_bytes_len payload > 0 then
           (let payload_string = z_bytes_decode_into_string payload
            in [Printf ''>> [Queryable ] Received Query '%.*s?%.*s' with value '%.*s'\<newline>''
                  [key_string, params, payload_string]])
         else
           [Printf ''>> [Queryable ] Received Query '%.*s?%.*s'\<newline>''
              [key_string, params]])
        @ (let reply_payload = z_bytes_encode_from_string value_str
           in [Z_query_reply n ke reply_payload, Z_drop_query n]))"

text \<open>
  The loop \<^verbatim>\<open>for (recv; z_check(oquery); recv)\<close>. It runs as long as the channel
  delivers valid queries, which may be forever, so the model takes fuel: the number of
  \<^verbatim>\<open>recv\<close> calls the run is observed for. The result is the trace so far and whether the
  loop was left.
\<close>

fun main_loop :: "substrate \<Rightarrow> string \<Rightarrow> nat \<Rightarrow> nat \<Rightarrow> event list \<times> bool" where
  "main_loop sub ke 0 n = ([], False)"
| "main_loop sub ke (Suc fuel) n =
    (let oquery = recv sub n in
     if z_check oquery then
       (let r = main_loop sub ke fuel (Suc n)
        in (Z_call_recv # main_loop_body sub ke n (the oquery) @ fst r, snd r))
     else ([Z_call_recv], True))"

text \<open>
  \<^verbatim>\<open>main\<close>. \<open>argv\<close> is the argument vector, \<open>argc\<close> its length. The result is the
  trace and the exit code: \<open>Some (-1)\<close> for \<^verbatim>\<open>exit(-1)\<close>, \<open>Some 0\<close> for
  \<^verbatim>\<open>return 0\<close>, \<open>None\<close> while the loop is still running when the fuel ends.
  \<^verbatim>\<open>z_closure\<close> only fills in the callback (\<^verbatim>\<open>query_handler\<close>, with the channel's
  send closure as its context) that \<^verbatim>\<open>z_declare_queryable\<close> registers.
\<close>

definition main :: "substrate \<Rightarrow> string list \<Rightarrow> nat \<Rightarrow> event list \<times> int option" where
  "main sub argv fuel =
    (let argc = length argv;
         keyexpr = (if argc > 1 then argv ! 1 else keyexpr_default);
         t1 = [Z_config_default]
     in
     if argc > 2 \<and> zc_config_insert_json sub (Z_CONFIG_CONNECT_KEY sub) (argv ! 2) < 0 then
       (t1 @ [Zc_config_insert_json (Z_CONFIG_CONNECT_KEY sub) (argv ! 2),
              Printf ''Couldn't insert value `%s` in configuration at `%s`. This is likely because `%s` expects a JSON-serialized list of strings\<newline>''
                [argv ! 2, Z_CONFIG_CONNECT_KEY sub, Z_CONFIG_CONNECT_KEY sub]],
        Some (- 1))
     else
     (let config = (if argc > 2 then [(Z_CONFIG_CONNECT_KEY sub, argv ! 2)] else []);
          t2 = t1 @ (if argc > 2 then [Zc_config_insert_json (Z_CONFIG_CONNECT_KEY sub) (argv ! 2)] else [])
                  @ [Printf ''Opening session...\<newline>'' [], Z_open config]
      in
      if z_open sub config < 0 then
        (t2 @ [Printf ''Unable to open session!\<newline>'' []], Some (- 1))
      else
      (let t3 = t2 @ [Z_view_keyexpr_from_string keyexpr] in
       if z_view_keyexpr_from_string sub keyexpr < 0 then
         (t3 @ [Printf ''%s is not a valid key expression'' [keyexpr]], Some (- 1))
       else
       (let ke = keyexpr;
            t4 = t3 @ [Printf ''Declaring Queryable on '%s'...\<newline>'' [keyexpr],
                       Zc_query_fifo_new 16,
                       Z_declare_queryable ke]
        in
        if z_declare_queryable sub ke < 0 then
          (t4 @ [Printf ''Unable to create queryable.\<newline>'' []], Some (- 1))
        else
        (let t5 = t4 @ [Printf ''^C to quit...\<newline>'' []];
             r = main_loop sub ke fuel 0
         in
         if snd r then
           (t5 @ fst r @ [Z_undeclare_queryable, Z_drop_channel, Z_close], Some 0)
         else (t5 @ fst r, None))))))"

text \<open>
  The key expression and the configuration that \<^verbatim>\<open>main\<close> computes from its arguments,
  and the number of queries the loop handles within the fuel: names for stating the
  properties of a run.
\<close>

definition main_keyexpr :: "string list \<Rightarrow> string" where
  "main_keyexpr argv = (if length argv > 1 then argv ! 1 else keyexpr_default)"

definition main_config :: "substrate \<Rightarrow> string list \<Rightarrow> config" where
  "main_config sub argv =
    (if length argv > 2 then [(Z_CONFIG_CONNECT_KEY sub, argv ! 2)] else [])"

definition main_setup_ok :: "substrate \<Rightarrow> string list \<Rightarrow> bool" where
  "main_setup_ok sub argv =
    (\<not> (length argv > 2 \<and> zc_config_insert_json sub (Z_CONFIG_CONNECT_KEY sub) (argv ! 2) < 0)
     \<and> \<not> z_open sub (main_config sub argv) < 0
     \<and> \<not> z_view_keyexpr_from_string sub (main_keyexpr argv) < 0
     \<and> \<not> z_declare_queryable sub (main_keyexpr argv) < 0)"

text \<open>The calls of a run whose setup succeeds, up to the start of the loop.\<close>

definition main_setup_trace :: "substrate \<Rightarrow> string list \<Rightarrow> event list" where
  "main_setup_trace sub argv =
    [Z_config_default]
    @ (if length argv > 2 then [Zc_config_insert_json (Z_CONFIG_CONNECT_KEY sub) (argv ! 2)] else [])
    @ [Printf ''Opening session...\<newline>'' [],
       Z_open (main_config sub argv),
       Z_view_keyexpr_from_string (main_keyexpr argv),
       Printf ''Declaring Queryable on '%s'...\<newline>'' [main_keyexpr argv],
       Zc_query_fifo_new 16,
       Z_declare_queryable (main_keyexpr argv),
       Printf ''^C to quit...\<newline>'' []]"

fun main_loop_iterations :: "substrate \<Rightarrow> nat \<Rightarrow> nat \<Rightarrow> nat" where
  "main_loop_iterations sub 0 n = 0"
| "main_loop_iterations sub (Suc fuel) n =
    (if z_check (recv sub n) then Suc (main_loop_iterations sub fuel (Suc n)) else 0)"

fun is_reply :: "event \<Rightarrow> bool" where
  "is_reply (Z_query_reply i k p) = True"
| "is_reply e = False"

fun is_reply_or_drop :: "event \<Rightarrow> bool" where
  "is_reply_or_drop (Z_query_reply i k p) = True"
| "is_reply_or_drop (Z_drop_query i) = True"
| "is_reply_or_drop e = False"

fun is_fifo_new :: "event \<Rightarrow> bool" where
  "is_fifo_new (Zc_query_fifo_new c) = True"
| "is_fifo_new e = False"

text \<open>
  A channel that delivers the queries of a list, then the end marker, and a library
  whose calls all succeed around it and whose accessors hand out no bytes for a query
  without payload: the environment of the example runs below.
\<close>

definition deliver :: "query list \<Rightarrow> nat \<Rightarrow> z_owned_query" where
  "deliver qs n = (if n < length qs then Some (qs ! n) else None)"

definition accepting :: "query list \<Rightarrow> substrate" where
  "accepting qs =
    \<lparr>Z_CONFIG_CONNECT_KEY = ''connect/endpoints'',
     zc_config_insert_json = (\<lambda>k v. 0),
     z_open = (\<lambda>c. 0),
     z_view_keyexpr_from_string = (\<lambda>s. 0),
     z_declare_queryable = (\<lambda>k. 0),
     recv = deliver qs,
     absent_payload = []\<rparr>"

text \<open>
  The scenario of the spec: the queryable declared on \<^verbatim>\<open>demo/example/test\<close>, and a
  query on that key with no parameters and no payload.
\<close>

definition scenario_argv :: "string list" where
  "scenario_argv = [''z_queryable_with_channels'', ''demo/example/test'']"

definition scenario_query :: query where
  "scenario_query =
    \<lparr>q_keyexpr = ''demo/example/test'', q_parameters = [], q_payload = None\<rparr>"

subsection \<open>query\_handler\<close>

text \<open>
  The callback receives a borrowed query, valid while the callback runs, and the
  channel's send closure as its context. Borrowed and owned queries are told apart by
  where they live: the library's query objects are a store indexed by address, and a
  released object leaves \<open>None\<close> at its address.
\<close>

type_synonym addr = nat
type_synonym query_store = "query option list"

definition query_at :: "query_store \<Rightarrow> addr \<Rightarrow> query option" where
  "query_at st a = (if a < length st then st ! a else None)"

text \<open>
  Modelled from the spec: \<^verbatim>\<open>z_query_clone(query, &oquery)\<close>, a library function whose
  code is not part of the sources. It makes an owned query of its own from the borrowed
  one; cloning what is not a live query gives the null value.
\<close>

definition z_query_clone :: "addr \<Rightarrow> query_store \<Rightarrow> addr option \<times> query_store" where
  "z_query_clone query st =
    (case query_at st query of
       None \<Rightarrow> (None, st)
     | Some q \<Rightarrow> (Some (length st), st @ [Some q]))"

text \<open>What the library does with the borrowed query once the callback has returned.\<close>

definition release :: "addr \<Rightarrow> query_store \<Rightarrow> query_store" where
  "release a st = (if a < length st then st[a := None] else st)"

text \<open>
  \<^verbatim>\<open>query_handler(query, context)\<close>: \<open>channel\<close> is the closure that \<open>context\<close> points
  to, a function of the owned query handed to it and of the channel's state.
\<close>

definition query_handler ::
  "addr \<Rightarrow> (addr option \<Rightarrow> 'c \<Rightarrow> 'c) \<Rightarrow> query_store \<times> 'c \<Rightarrow> query_store \<times> 'c" where
  "query_handler query channel s =
    (let (oquery, st) = z_query_clone query (fst s)
     in (st, channel oquery (snd s)))"

subsection \<open>The bounded queue\<close>

text \<open>
  Modelled from the spec: the channel made by \<^verbatim>\<open>zc_query_fifo_new\<close>, whose code is
  not part of the sources. The spec (4.1) gives it a fixed capacity, \<open>push\<close> on the
  producer's side, \<open>pop\<close> on the consumer's side, which yields an item or the end
  marker, and closing. A push beyond the capacity blocks or drops, the spec leaves open
  which: either way the item is not in the queue after this attempt, which is \<open>None\<close>
  here. A pop on a closed queue yields the end marker; a pop on an open empty queue has
  to wait.
\<close>

record 'a fifo =
  capacity :: nat
  items :: "'a list"
  closed :: bool

datatype 'a pop_result = Item 'a | End_marker | Waiting

definition fifo_new :: "nat \<Rightarrow> 'a fifo" where
  "fifo_new cap = \<lparr>capacity = cap, items = [], closed = False\<rparr>"

definition fifo_push :: "'a \<Rightarrow> 'a fifo \<Rightarrow> 'a fifo option" where
  "fifo_push x c =
    (if length (items c) \<ge> capacity c then None
     else Some (c\<lparr>items := items c @ [x]\<rparr>))"

definition fifo_pop :: "'a fifo \<Rightarrow> 'a pop_result \<times> 'a fifo" where
  "fifo_pop c =
    (if closed c then (End_marker, c)
     else (case items c of
             [] \<Rightarrow> (Waiting, c)
           | x # xs \<Rightarrow> (Item x, c\<lparr>items := xs\<rparr>)))"

definition fifo_close :: "'a fifo \<Rightarrow> 'a fifo" where
  "fifo_close c = c\<lparr>closed := True\<rparr>"

text \<open>
  A history of the queue: the producer's and the consumer's operations in the order in
  which they take effect. The run keeps the items that were enqueued and the items
  that were dequeued, each in order.
\<close>

datatype 'a fifo_op = Push 'a | Pop | Close

fun fifo_run :: "'a fifo_op list \<Rightarrow> 'a fifo \<times> 'a list \<times> 'a list \<Rightarrow> 'a fifo \<times> 'a list \<times> 'a list" where
  "fifo_run [] s = s"
| "fifo_run (Push x # ops) (c, enq, deq) =
    (case fifo_push x c of
       None \<Rightarrow> fifo_run ops (c, enq, deq)
     | Some c' \<Rightarrow> fifo_run ops (c', enq @ [x], deq))"
| "fifo_run (Pop # ops) (c, enq, deq) =
    (case fifo_pop c of
       (Item x, c') \<Rightarrow> fifo_run ops (c', enq, deq @ [x])
     | (r, c') \<Rightarrow> fifo_run ops (c', enq, deq))"
| "fifo_run (Close # ops) (c, enq, deq) = fifo_run ops (fifo_close c, enq, deq)"

text \<open>
  A send closure over such a channel, as \<^verbatim>\<open>query_handler\<close> calls it: the one that
  gives the item up when the queue is full.
\<close>

definition fifo_send :: "'a \<Rightarrow> 'a fifo \<Rightarrow> 'a fifo" where
  "fifo_send x c = (case fifo_push x c of None \<Rightarrow> c | Some c' \<Rightarrow> c')"

section \<open>The build helper: helpers.cmake\<close>

text \<open>
  \<^verbatim>\<open>check_project_usage(is_root is_ide)\<close> writes two variables of the caller's scope,
  named by its arguments. A scope maps variable names to values; the three directory
  variables the function reads are its environment. The names are names of variables
  (not empty, no list separator), so that each \<^verbatim>\<open>${is_root}\<close> is one argument of
  \<^verbatim>\<open>set\<close>, and the directories are paths, which \<^verbatim>\<open>if\<close> compares as strings.
\<close>

type_synonym scope = "string \<rightharpoonup> string"

record cmake_dirs =
  CMAKE_SOURCE_DIR :: string
  CMAKE_CURRENT_SOURCE_DIR :: string
  CMAKE_CURRENT_BINARY_DIR :: string

definition check_project_usage :: "string \<Rightarrow> string \<Rightarrow> cmake_dirs \<Rightarrow> scope \<Rightarrow> scope" where
  "check_project_usage is_root is_ide d parent =
    (let p1 = parent(is_root \<mapsto> ''FALSE'');
         p2 = p1(is_ide \<mapsto> ''FALSE'')
     in if CMAKE_SOURCE_DIR d = CMAKE_CURRENT_SOURCE_DIR d then
          (let p3 = p2(is_root \<mapsto> ''TRUE'')
           in if CMAKE_CURRENT_BINARY_DIR d = CMAKE_CURRENT_SOURCE_DIR d @ ''/build''
              then p3(is_ide \<mapsto> ''TRUE'')
              else p3)
        else p2)"

section \<open>Properties of a run of main\<close>

subsection \<open>The shape of the loop's trace\<close>

lemma main_loop_body_shape:
  "\<exists>f a. main_loop_body sub ke n q = [Printf f a, Z_query_reply n ke value_str, Z_drop_query n]"
  by (simp add: main_loop_body_def z_bytes_encode_from_string_def Let_def)

lemma upt_add_Suc: "[n..<Suc (n + m)] = n # [Suc n..<Suc (n + m)]"
  by (simp add: upt_conv_Cons del: upt_Suc)

lemma main_loop_eq:
  "main_loop sub ke fuel n =
     (concat (map (\<lambda>i. Z_call_recv # main_loop_body sub ke i (the (recv sub i)))
                  [n ..< n + main_loop_iterations sub fuel n])
        @ (if main_loop_iterations sub fuel n < fuel then [Z_call_recv] else []),
      main_loop_iterations sub fuel n < fuel)"
proof (induction fuel arbitrary: n)
  case 0
  show ?case by simp
next
  case (Suc fuel)
  show ?case
  proof (cases "z_check (recv sub n)")
    case True
    then show ?thesis
      by (simp add: Suc.IH [of "Suc n"] Let_def upt_add_Suc del: upt_Suc)
  next
    case False
    then show ?thesis by simp
  qed
qed


lemma main_loop_iterations_valid:
  "i < main_loop_iterations sub fuel n \<Longrightarrow> z_check (recv sub (n + i))"
proof (induction fuel arbitrary: n i)
  case 0
  then show ?case by simp
next
  case (Suc fuel)
  show ?case
  proof (cases i)
    case 0
    with Suc.prems show ?thesis by (simp split: if_splits)
  next
    case (Suc j)
    with Suc.prems Suc.IH [of j "Suc n"] show ?thesis by (simp split: if_splits)
  qed
qed

lemma main_loop_iterations_end:
  "main_loop_iterations sub fuel n < fuel \<Longrightarrow>
     \<not> z_check (recv sub (n + main_loop_iterations sub fuel n))"
proof (induction fuel arbitrary: n)
  case 0
  then show ?case by simp
next
  case (Suc fuel)
  show ?case
  proof (cases "z_check (recv sub n)")
    case True
    with Suc.prems Suc.IH [of "Suc n"] show ?thesis by simp
  next
    case False
    then show ?thesis by simp
  qed
qed

lemma main_loop_iterations_first_invalid:
  "\<forall>i<k. z_check (recv sub (n + i)) \<Longrightarrow> \<not> z_check (recv sub (n + k)) \<Longrightarrow> k < fuel \<Longrightarrow>
     main_loop_iterations sub fuel n = k"
proof (induction fuel arbitrary: n k)
  case 0
  then show ?case by simp
next
  case (Suc fuel)
  show ?case
  proof (cases k)
    case 0
    with Suc.prems show ?thesis by simp
  next
    case (Suc j)
    have v: "z_check (recv sub n)" using Suc.prems(1) Suc by force
    have a: "\<forall>i<j. z_check (recv sub (Suc n + i))" using Suc.prems(1) Suc by force
    have b: "\<not> z_check (recv sub (Suc n + j))" using Suc.prems(2) Suc by simp
    have "main_loop_iterations sub fuel (Suc n) = j"
      using Suc.IH [OF a b] Suc.prems(3) Suc by simp
    with v Suc show ?thesis by simp
  qed
qed

lemma main_loop_finished_iff:
  "snd (main_loop sub ke fuel n) \<longleftrightarrow> (\<exists>k<fuel. \<not> z_check (recv sub (n + k)))"
proof
  assume "snd (main_loop sub ke fuel n)"
  then have "main_loop_iterations sub fuel n < fuel" by (simp add: main_loop_eq)
  then show "\<exists>k<fuel. \<not> z_check (recv sub (n + k))"
    using main_loop_iterations_end by blast
next
  assume "\<exists>k<fuel. \<not> z_check (recv sub (n + k))"
  then obtain k where k: "k < fuel" "\<not> z_check (recv sub (n + k))" by blast
  have "main_loop_iterations sub fuel n < fuel"
  proof (rule ccontr)
    assume "\<not> main_loop_iterations sub fuel n < fuel"
    then have "k < main_loop_iterations sub fuel n" using k(1) by simp
    then show False using main_loop_iterations_valid k(2) by blast
  qed
  then show "snd (main_loop sub ke fuel n)" by (simp add: main_loop_eq)
qed


lemma main_loop_recv_count:
  "length (filter (\<lambda>e. e = Z_call_recv) (fst (main_loop sub ke fuel n))) =
     main_loop_iterations sub fuel n + (if snd (main_loop sub ke fuel n) then 1 else 0)"
proof (induction fuel arbitrary: n)
  case 0
  show ?case by simp
next
  case (Suc fuel)
  obtain f a where b: "main_loop_body sub ke n (the (recv sub n)) =
      [Printf f a, Z_query_reply n ke value_str, Z_drop_query n]"
    using main_loop_body_shape by blast
  show ?case
    by (simp add: Suc.IH [of "Suc n"] b Let_def)
qed

lemma main_loop_no_fifo_new: "filter is_fifo_new (fst (main_loop sub ke fuel n)) = []"
proof (induction fuel arbitrary: n)
  case 0
  show ?case by simp
next
  case (Suc fuel)
  obtain f a where b: "main_loop_body sub ke n (the (recv sub n)) =
      [Printf f a, Z_query_reply n ke value_str, Z_drop_query n]"
    using main_loop_body_shape by blast
  show ?case
    by (simp add: Suc.IH [of "Suc n"] b Let_def)
qed

lemma main_loop_reply:
  "Z_query_reply i k p \<in> set (fst (main_loop sub ke fuel n)) \<Longrightarrow>
     k = ke \<and> p = value_str \<and>
     sublist [Z_query_reply i k p, Z_drop_query i] (fst (main_loop sub ke fuel n))"
proof (induction fuel arbitrary: n)
  case 0
  then show ?case by simp
next
  case (Suc fuel)
  obtain f a where b: "main_loop_body sub ke n (the (recv sub n)) =
      [Printf f a, Z_query_reply n ke value_str, Z_drop_query n]"
    using main_loop_body_shape by blast
  show ?case
  proof (cases "z_check (recv sub n)")
    case False
    with Suc.prems show ?thesis by simp
  next
    case True
    then have t: "fst (main_loop sub ke (Suc fuel) n) =
        [Z_call_recv, Printf f a] @ [Z_query_reply n ke value_str, Z_drop_query n]
          @ fst (main_loop sub ke fuel (Suc n))"
      by (simp add: b Let_def)
    from Suc.prems t
    consider (here) "i = n" "k = ke" "p = value_str"
      | (later) "Z_query_reply i k p \<in> set (fst (main_loop sub ke fuel (Suc n)))"
      by auto
    then show ?thesis
    proof cases
      case here
      then show ?thesis unfolding t by (simp only: sublist_appendI simp_thms)
    next
      case later
      have ih: "k = ke" "p = value_str"
        "sublist [Z_query_reply i k p, Z_drop_query i] (fst (main_loop sub ke fuel (Suc n)))"
        using Suc.IH [OF later] by blast+
      have "sublist [Z_query_reply i k p, Z_drop_query i]
              (([Z_call_recv, Printf f a] @ [Z_query_reply n ke value_str, Z_drop_query n])
                 @ fst (main_loop sub ke fuel (Suc n)))"
        using ih(3) by (rule sublist_order.order.trans) (rule sublist_append_leftI)
      then show ?thesis using ih(1,2) unfolding t by simp
    qed
  qed
qed

lemma main_loop_reply_count:
  "length (filter is_reply (fst (main_loop sub ke fuel n))) = main_loop_iterations sub fuel n"
proof (induction fuel arbitrary: n)
  case 0
  show ?case by simp
next
  case (Suc fuel)
  obtain f a where b: "main_loop_body sub ke n (the (recv sub n)) =
      [Printf f a, Z_query_reply n ke value_str, Z_drop_query n]"
    using main_loop_body_shape by blast
  show ?case
    by (simp add: Suc.IH [of "Suc n"] b Let_def)
qed

subsection \<open>The runs of main, by the outcome of the setup\<close>

lemma main_ok:
  "main_setup_ok sub argv \<Longrightarrow>
     main sub argv fuel =
      (main_setup_trace sub argv @ fst (main_loop sub (main_keyexpr argv) fuel 0)
         @ (if snd (main_loop sub (main_keyexpr argv) fuel 0)
            then [Z_undeclare_queryable, Z_drop_channel, Z_close] else []),
       if snd (main_loop sub (main_keyexpr argv) fuel 0) then Some 0 else None)"
  by (simp add: main_setup_ok_def main_def main_keyexpr_def main_config_def
      main_setup_trace_def Let_def)

lemma main_setup_cases:
  obtains
    (insert_failed) "length argv > 2"
      "zc_config_insert_json sub (Z_CONFIG_CONNECT_KEY sub) (argv ! 2) < 0"
  | (open_failed)
      "\<not> (length argv > 2 \<and> zc_config_insert_json sub (Z_CONFIG_CONNECT_KEY sub) (argv ! 2) < 0)"
      "z_open sub (main_config sub argv) < 0"
  | (keyexpr_failed)
      "\<not> (length argv > 2 \<and> zc_config_insert_json sub (Z_CONFIG_CONNECT_KEY sub) (argv ! 2) < 0)"
      "\<not> z_open sub (main_config sub argv) < 0"
      "z_view_keyexpr_from_string sub (main_keyexpr argv) < 0"
  | (declare_failed)
      "\<not> (length argv > 2 \<and> zc_config_insert_json sub (Z_CONFIG_CONNECT_KEY sub) (argv ! 2) < 0)"
      "\<not> z_open sub (main_config sub argv) < 0"
      "\<not> z_view_keyexpr_from_string sub (main_keyexpr argv) < 0"
      "z_declare_queryable sub (main_keyexpr argv) < 0"
  | (ok) "main_setup_ok sub argv"
  unfolding main_setup_ok_def by blast

lemma main_fail:
  assumes "\<not> main_setup_ok sub argv"
  shows "snd (main sub argv fuel) = Some (- 1)"
    and "filter is_reply_or_drop (fst (main sub argv fuel)) = []"
    and "filter is_reply (fst (main sub argv fuel)) = []"
    and "filter (\<lambda>e. e = Z_call_recv) (fst (main sub argv fuel)) = []"
proof -
  have "snd (main sub argv fuel) = Some (- 1)
      \<and> filter is_reply_or_drop (fst (main sub argv fuel)) = []
      \<and> filter is_reply (fst (main sub argv fuel)) = []
      \<and> filter (\<lambda>e. e = Z_call_recv) (fst (main sub argv fuel)) = []"
  proof (cases rule: main_setup_cases [of argv sub])
    case insert_failed
    then show ?thesis by (simp add: main_def Let_def)
  next
    case open_failed
    then show ?thesis by (simp add: main_def main_config_def Let_def)
  next
    case keyexpr_failed
    then show ?thesis by (simp add: main_def main_config_def main_keyexpr_def Let_def)
  next
    case declare_failed
    then show ?thesis by (simp add: main_def main_config_def main_keyexpr_def Let_def)
  next
    case ok
    with assms show ?thesis by simp
  qed
  then show "snd (main sub argv fuel) = Some (- 1)"
    and "filter is_reply_or_drop (fst (main sub argv fuel)) = []"
    and "filter is_reply (fst (main sub argv fuel)) = []"
    and "filter (\<lambda>e. e = Z_call_recv) (fst (main sub argv fuel)) = []"
    by simp_all
qed



lemma main_loop_body_no_bytes:
  "z_value_payload sub q = [] \<Longrightarrow>
   main_loop_body sub ke n q =
     [Printf ''>> [Queryable ] Received Query '%.*s?%.*s'\<newline>'' [q_keyexpr q, q_parameters q],
      Z_query_reply n ke value_str, Z_drop_query n]"
  by (simp add: main_loop_body_def z_bytes_len_def z_query_keyexpr_def z_query_parameters_def
      z_bytes_encode_from_string_def)


lemma accepting_setup_ok: "main_setup_ok (accepting qs) argv"
  by (simp add: main_setup_ok_def accepting_def)

lemma accepting_one_query_run:
  "main (accepting [q]) argv (Suc (Suc fuel)) =
     (main_setup_trace (accepting [q]) argv
        @ Z_call_recv # main_loop_body (accepting [q]) (main_keyexpr argv) 0 q
        @ [Z_call_recv, Z_undeclare_queryable, Z_drop_channel, Z_close],
      Some 0)"
proof -
  have "main_loop (accepting [q]) ke (Suc (Suc fuel)) 0 =
      (Z_call_recv # main_loop_body (accepting [q]) ke 0 q @ [Z_call_recv], True)" for ke
    by (simp add: accepting_def deliver_def z_check_def)
  then show ?thesis
    by (simp add: main_ok [OF accepting_setup_ok])
qed

section \<open>The claims about the consumption loop\<close>

subsection \<open>Absent and empty payloads\<close>




subsection \<open>The key expression of the reply\<close>

text \<open>
  Claim C2, as amended. The claim says that the reply is addressed by the query's own
  key expression. The program passes \<^verbatim>\<open>z_loan(ke)\<close>, the key expression the queryable
  was declared on (\<^verbatim>\<open>argv[1]\<close>, or the default), whatever key the query carries. What
  holds: every reply of a run is addressed by that key expression, and the call that
  follows it drops the same query.
\<close>

theorem main_reply_keyexpr:
  assumes "Z_query_reply i k p \<in> set (fst (main sub argv fuel))"
  shows "k = (if length argv > 1 then argv ! 1 else keyexpr_default)
    \<and> sublist [Z_query_reply i k p, Z_drop_query i] (fst (main sub argv fuel))"
proof (cases "main_setup_ok sub argv")
  case False
  have "Z_query_reply i k p \<in> set (filter is_reply (fst (main sub argv fuel)))"
    using assms by simp
  then show ?thesis by (simp add: main_fail(3) [OF False])
next
  case True
  let ?ke = "main_keyexpr argv"
  let ?tl = "if snd (main_loop sub ?ke fuel 0)
            then [Z_undeclare_queryable, Z_drop_channel, Z_close] else []"
  have m: "fst (main sub argv fuel) =
      main_setup_trace sub argv @ fst (main_loop sub ?ke fuel 0) @ ?tl"
    using main_ok [OF True, of fuel] by simp
  have "Z_query_reply i k p \<in> set (fst (main_loop sub ?ke fuel 0))"
    using assms unfolding m by (auto simp add: main_setup_trace_def split: if_splits)
  from main_loop_reply [OF this]
  have k: "k = ?ke"
    and s: "sublist [Z_query_reply i k p, Z_drop_query i] (fst (main_loop sub ?ke fuel 0))"
    by blast+
  have "sublist (fst (main_loop sub ?ke fuel 0)) (fst (main sub argv fuel))"
    unfolding m by (rule sublist_appendI)
  with s have "sublist [Z_query_reply i k p, Z_drop_query i] (fst (main sub argv fuel))"
    by (rule sublist_order.order.trans)
  with k show ?thesis by (simp add: main_keyexpr_def)
qed

text \<open>
  A queryable declared on \<^verbatim>\<open>demo/example/**\<close> receives the scenario's query, whose key
  is \<^verbatim>\<open>demo/example/test\<close>.
\<close>

theorem main_reply_keyexpr_witness:
  "Z_query_reply 0 ''demo/example/**'' ''Queryable from C!''
     \<in> set (fst (main (accepting [scenario_query]) [''z_queryable_with_channels'', ''demo/example/**''] 2))
   \<and> sublist [Z_query_reply 0 ''demo/example/**'' ''Queryable from C!'', Z_drop_query 0]
        (fst (main (accepting [scenario_query]) [''z_queryable_with_channels'', ''demo/example/**''] 2))"
proof -
  let ?t = "fst (main (accepting [scenario_query])
                  [''z_queryable_with_channels'', ''demo/example/**''] 2)"
  have "z_value_payload (accepting [scenario_query]) scenario_query = []"
    by (simp add: z_value_payload_def scenario_query_def accepting_def)
  then have m: "Z_query_reply 0 ''demo/example/**'' ''Queryable from C!'' \<in> set ?t"
    by (simp add: numeral_2_eq_2 accepting_one_query_run main_loop_body_no_bytes
        main_keyexpr_def value_str_def)
  from main_reply_keyexpr [OF m] m show ?thesis by simp
qed

text \<open>
  The claim as stated fails on that run: the query delivered first carries the key
  \<^verbatim>\<open>demo/example/test\<close>, and the only reply of the run is addressed by
  \<^verbatim>\<open>demo/example/**\<close>.
\<close>

theorem main_reply_keyexpr_counterexample:
  "recv (accepting [scenario_query]) 0 = Some scenario_query
   \<and> q_keyexpr scenario_query = ''demo/example/test''
   \<and> filter is_reply
        (fst (main (accepting [scenario_query]) [''z_queryable_with_channels'', ''demo/example/**''] 2))
      = [Z_query_reply 0 ''demo/example/**'' ''Queryable from C!'']"
proof -
  have "z_value_payload (accepting [scenario_query]) scenario_query = []"
    by (simp add: z_value_payload_def scenario_query_def accepting_def)
  then show ?thesis
    by (simp add: numeral_2_eq_2 accepting_one_query_run main_loop_body_no_bytes
        main_setup_trace_def main_keyexpr_def value_str_def)
       (simp add: accepting_def deliver_def scenario_query_def)
qed

subsection \<open>Exit codes\<close>

text \<open>
  Claim C3. The process exits with code \<open>-1\<close> on every setup failure: the connect
  endpoint rejected by the configuration, the session not opened, the key expression
  not valid, the queryable not declared. It returns \<open>0\<close> on normal shutdown, after the
  loop has ended. Stated in both directions: the exit code is \<open>-1\<close> exactly when one
  of the four calls fails, and \<open>0\<close> exactly when none fails and the channel yields the
  end marker within the run.
\<close>

theorem main_exit_code:
  "(snd (main sub argv fuel) = Some (- 1) \<longleftrightarrow>
      (length argv > 2 \<and> zc_config_insert_json sub (Z_CONFIG_CONNECT_KEY sub) (argv ! 2) < 0)
      \<or> z_open sub (main_config sub argv) < 0
      \<or> z_view_keyexpr_from_string sub (main_keyexpr argv) < 0
      \<or> z_declare_queryable sub (main_keyexpr argv) < 0)
   \<and> (snd (main sub argv fuel) = Some 0 \<longleftrightarrow>
      \<not> (length argv > 2 \<and> zc_config_insert_json sub (Z_CONFIG_CONNECT_KEY sub) (argv ! 2) < 0)
      \<and> 0 \<le> z_open sub (main_config sub argv)
      \<and> 0 \<le> z_view_keyexpr_from_string sub (main_keyexpr argv)
      \<and> 0 \<le> z_declare_queryable sub (main_keyexpr argv)
      \<and> (\<exists>k<fuel. \<not> z_check (recv sub k)))"
proof (cases "main_setup_ok sub argv")
  case True
  have "snd (main_loop sub (main_keyexpr argv) fuel 0) \<longleftrightarrow> (\<exists>k<fuel. \<not> z_check (recv sub k))"
    using main_loop_finished_iff [of sub "main_keyexpr argv" fuel 0] by simp
  moreover have "snd (main sub argv fuel) =
      (if snd (main_loop sub (main_keyexpr argv) fuel 0) then Some 0 else None)"
    using main_ok [OF True] by simp
  ultimately show ?thesis
    using True by (auto simp add: main_setup_ok_def not_less)
next
  case False
  then show ?thesis
    by (simp add: main_fail(1)) (auto simp add: main_setup_ok_def not_less)
qed

text \<open>
  One run for each way the setup can fail, and the run that succeeds and finds the
  channel closed.
\<close>

theorem main_exit_code_witness:
  "snd (main ((accepting [])\<lparr>zc_config_insert_json := \<lambda>k v. - 1\<rparr>)
          (scenario_argv @ [''tcp/127.0.0.1:7447'']) 1) = Some (- 1)
   \<and> snd (main ((accepting [])\<lparr>z_open := \<lambda>c. - 1\<rparr>) scenario_argv 1) = Some (- 1)
   \<and> snd (main ((accepting [])\<lparr>z_view_keyexpr_from_string := \<lambda>s. - 1\<rparr>) scenario_argv 1) = Some (- 1)
   \<and> snd (main ((accepting [])\<lparr>z_declare_queryable := \<lambda>k. - 1\<rparr>) scenario_argv 1) = Some (- 1)
   \<and> snd (main (accepting []) scenario_argv 1) = Some 0"
  using
    main_exit_code [of "(accepting [])\<lparr>zc_config_insert_json := \<lambda>k v. - 1\<rparr>"
      "scenario_argv @ [''tcp/127.0.0.1:7447'']" 1]
    main_exit_code [of "(accepting [])\<lparr>z_open := \<lambda>c. - 1\<rparr>" scenario_argv 1]
    main_exit_code [of "(accepting [])\<lparr>z_view_keyexpr_from_string := \<lambda>s. - 1\<rparr>" scenario_argv 1]
    main_exit_code [of "(accepting [])\<lparr>z_declare_queryable := \<lambda>k. - 1\<rparr>" scenario_argv 1]
    main_exit_code [of "accepting []" scenario_argv 1]
  by (simp add: accepting_def deliver_def z_check_def scenario_argv_def)

subsection \<open>One reply for each query\<close>



subsection \<open>The end of the loop and the teardown\<close>

text \<open>
  Claim C5. When the channel's \<^verbatim>\<open>recv\<close> yields the end marker (a query that
  \<^verbatim>\<open>z_check\<close> rejects), the loop exits and the teardown runs in order: the queryable is
  undeclared, the channel is dropped, the session is closed. Here the end marker is the
  \<open>k\<close>-th value delivered, after \<open>k\<close> valid queries, and the run is observed long
  enough to reach it: the trace ends with that \<^verbatim>\<open>recv\<close> and the three teardown calls,
  \<^verbatim>\<open>recv\<close> was called \<open>k + 1\<close> times and \<open>k\<close> replies were sent, and \<^verbatim>\<open>main\<close>
  returns \<open>0\<close>.
\<close>

theorem main_end_marker_teardown:
  assumes "main_setup_ok sub argv"
    and "\<forall>i<k. z_check (recv sub i)"
    and "\<not> z_check (recv sub k)"
    and "k < fuel"
  shows "snd (main sub argv fuel) = Some 0
    \<and> suffix [Z_call_recv, Z_undeclare_queryable, Z_drop_channel, Z_close] (fst (main sub argv fuel))
    \<and> length (filter (\<lambda>e. e = Z_call_recv) (fst (main sub argv fuel))) = Suc k
    \<and> length (filter is_reply (fst (main sub argv fuel))) = k"
proof -
  let ?ke = "main_keyexpr argv"
  have it: "main_loop_iterations sub fuel 0 = k"
    using main_loop_iterations_first_invalid [of k sub 0 fuel] assms by simp
  then have fin: "snd (main_loop sub ?ke fuel 0)"
    using assms(4) by (simp add: main_loop_eq)
  have m: "fst (main sub argv fuel) =
      main_setup_trace sub argv @ fst (main_loop sub ?ke fuel 0)
        @ [Z_undeclare_queryable, Z_drop_channel, Z_close]"
    and c: "snd (main sub argv fuel) = Some 0"
    using main_ok [OF assms(1), of fuel] fin by simp_all
  have l: "fst (main_loop sub ?ke fuel 0) =
      concat (map (\<lambda>i. Z_call_recv # main_loop_body sub ?ke i (the (recv sub i))) [0..<k])
        @ [Z_call_recv]"
    using it assms(4) by (simp add: main_loop_eq)
  have s: "suffix [Z_call_recv, Z_undeclare_queryable, Z_drop_channel, Z_close]
      (fst (main sub argv fuel))"
    unfolding m l by (simp add: suffix_def)
  have r: "length (filter (\<lambda>e. e = Z_call_recv) (fst (main sub argv fuel))) = Suc k"
    unfolding m using main_loop_recv_count [of sub ?ke fuel 0] it fin
    by (simp add: main_setup_trace_def)
  have q: "length (filter is_reply (fst (main sub argv fuel))) = k"
    unfolding m using main_loop_reply_count [of sub ?ke fuel 0] it
    by (simp add: main_setup_trace_def)
  show ?thesis using c s r q by simp
qed

text \<open>The scenario of the spec: one query, then the end marker.\<close>

theorem main_end_marker_teardown_witness:
  "main_setup_ok (accepting [scenario_query]) scenario_argv
   \<and> snd (main (accepting [scenario_query]) scenario_argv 5) = Some 0
   \<and> suffix [Z_call_recv, Z_undeclare_queryable, Z_drop_channel, Z_close]
        (fst (main (accepting [scenario_query]) scenario_argv 5))
   \<and> length (filter (\<lambda>e. e = Z_call_recv) (fst (main (accepting [scenario_query]) scenario_argv 5))) = 2
   \<and> length (filter is_reply (fst (main (accepting [scenario_query]) scenario_argv 5))) = 1"
proof -
  let ?sub = "accepting [scenario_query]"
  have ok: "main_setup_ok ?sub scenario_argv"
    by (simp add: main_setup_ok_def accepting_def)
  have v: "\<forall>i<1. z_check (recv ?sub i)"
    by (simp add: accepting_def deliver_def z_check_def)
  have e: "\<not> z_check (recv ?sub 1)"
    by (simp add: accepting_def deliver_def z_check_def)
  show ?thesis
    using ok main_end_marker_teardown [OF ok v e, of 5] by simp
qed

section \<open>The claims about the callback and the channel\<close>

subsection \<open>The callback enqueues a clone\<close>

text \<open>
  Claim C6. For every invocation of the query handler, the borrowed query is cloned into
  an owned query before it is enqueued, and it is the clone whose ownership goes to the
  queue entry. Whatever the channel's send closure is, the handler calls it with the
  handle that the clone returned: an address that held no query before and is not the
  address of the borrowed query, and that holds the borrowed query's contents, also
  after the library has released the borrowed query.
\<close>

theorem query_handler_enqueues_clone:
  assumes "query_at st query = Some q"
  shows "query_handler query channel (st, c) = (st @ [Some q], channel (Some (length st)) c)
    \<and> length st \<noteq> query
    \<and> query_at st (length st) = None
    \<and> query_at (st @ [Some q]) (length st) = Some q
    \<and> query_at (st @ [Some q]) query = Some q
    \<and> query_at (release query (st @ [Some q])) query = None
    \<and> query_at (release query (st @ [Some q])) (length st) = Some q"
proof -
  have lt: "query < length st"
    using assms by (simp add: query_at_def split: if_splits)
  have 1: "query_handler query channel (st, c) = (st @ [Some q], channel (Some (length st)) c)"
    using assms by (simp add: query_handler_def z_query_clone_def)
  have 2: "query_at (st @ [Some q]) query = Some q"
    using assms lt by (simp add: query_at_def nth_append)
  have 3: "query_at (release query (st @ [Some q])) query = None"
    using lt by (simp add: query_at_def release_def)
  have 4: "query_at (release query (st @ [Some q])) (length st) = Some q"
    using lt by (simp add: query_at_def release_def nth_append list_update_append)
  from lt 1 2 3 4 show ?thesis
    by (simp add: query_at_def)
qed

text \<open>
  The scenario's query, borrowed at address \<open>0\<close>, and an empty queue of capacity 16:
  the queue's entry is the clone at address \<open>1\<close>.
\<close>

theorem query_handler_enqueues_clone_witness:
  "query_at [Some scenario_query] 0 = Some scenario_query
   \<and> query_handler 0 fifo_send ([Some scenario_query], fifo_new 16) =
       ([Some scenario_query, Some scenario_query],
        \<lparr>capacity = 16, items = [Some 1], closed = False\<rparr>)
   \<and> query_at (release 0 [Some scenario_query, Some scenario_query]) 1 = Some scenario_query"
proof -
  have h: "query_at [Some scenario_query] 0 = Some scenario_query"
    by (simp add: query_at_def)
  from query_handler_enqueues_clone [OF h, of fifo_send "fifo_new 16"] h
  show ?thesis
    by (simp add: fifo_send_def fifo_push_def fifo_new_def)
qed

subsection \<open>The capacity of the channel\<close>

text \<open>
  Claim C7. The bounded queue between the callback and the loop is created with the
  fixed capacity 16. In every run that gets as far as creating the channel (the
  configuration, the session and the key expression were accepted), the channel is
  created once, with capacity 16; no other run creates a channel.
\<close>

theorem main_fifo_capacity:
  "filter is_fifo_new (fst (main sub argv fuel)) =
     (if \<not> (length argv > 2 \<and> zc_config_insert_json sub (Z_CONFIG_CONNECT_KEY sub) (argv ! 2) < 0)
         \<and> 0 \<le> z_open sub (main_config sub argv)
         \<and> 0 \<le> z_view_keyexpr_from_string sub (main_keyexpr argv)
      then [Zc_query_fifo_new 16] else [])"
proof (cases rule: main_setup_cases [of argv sub])
  case insert_failed
  then show ?thesis by (simp add: main_def Let_def)
next
  case open_failed
  then show ?thesis by (simp add: main_def main_config_def Let_def)
next
  case keyexpr_failed
  then show ?thesis by (simp add: main_def main_config_def main_keyexpr_def Let_def)
next
  case declare_failed
  then show ?thesis by (simp add: main_def main_config_def main_keyexpr_def Let_def)
next
  case ok
  have "filter is_fifo_new (main_setup_trace sub argv) = [Zc_query_fifo_new 16]"
    by (simp add: main_setup_trace_def)
  moreover have "fst (main sub argv fuel) =
      main_setup_trace sub argv @ fst (main_loop sub (main_keyexpr argv) fuel 0)
         @ (if snd (main_loop sub (main_keyexpr argv) fuel 0)
            then [Z_undeclare_queryable, Z_drop_channel, Z_close] else [])"
    using main_ok [OF ok] by simp
  ultimately show ?thesis
    using ok by (simp add: main_loop_no_fifo_new main_setup_ok_def not_less)
qed

theorem main_fifo_capacity_witness:
  "filter is_fifo_new (fst (main (accepting [scenario_query]) scenario_argv 5)) =
     [Zc_query_fifo_new 16]"
  using main_fifo_capacity [of "accepting [scenario_query]" scenario_argv 5]
  by (simp add: accepting_def scenario_argv_def)

subsection \<open>The payload of the reply\<close>

text \<open>
  Claim C8. For every query the loop replies to, the payload of the reply is the string
  \<^verbatim>\<open>Queryable from C!\<close>, whatever the query's parameters and payload are: every reply
  of every run carries it.
\<close>

theorem main_reply_payload:
  assumes "Z_query_reply i k p \<in> set (fst (main sub argv fuel))"
  shows "p = ''Queryable from C!''"
proof (cases "main_setup_ok sub argv")
  case False
  have "Z_query_reply i k p \<in> set (filter is_reply (fst (main sub argv fuel)))"
    using assms by simp
  then show ?thesis by (simp add: main_fail(3) [OF False])
next
  case True
  let ?ke = "main_keyexpr argv"
  have m: "fst (main sub argv fuel) =
      main_setup_trace sub argv @ fst (main_loop sub ?ke fuel 0)
        @ (if snd (main_loop sub ?ke fuel 0)
            then [Z_undeclare_queryable, Z_drop_channel, Z_close] else [])"
    using main_ok [OF True, of fuel] by simp
  have "Z_query_reply i k p \<in> set (fst (main_loop sub ?ke fuel 0))"
    using assms unfolding m by (auto simp add: main_setup_trace_def split: if_splits)
  from main_loop_reply [OF this] show ?thesis by (simp add: value_str_def)
qed

text \<open>The scenario of the spec: the reply to its query carries the global \<^verbatim>\<open>value\<close>.\<close>

theorem main_reply_payload_witness:
  "Z_query_reply 0 ''demo/example/test'' value_str
     \<in> set (fst (main (accepting [scenario_query]) scenario_argv 2))
   \<and> value_str = ''Queryable from C!''"
proof -
  have "z_value_payload (accepting [scenario_query]) scenario_query = []"
    by (simp add: z_value_payload_def scenario_query_def accepting_def)
  then have m: "Z_query_reply 0 ''demo/example/test'' value_str
      \<in> set (fst (main (accepting [scenario_query]) scenario_argv 2))"
    by (simp add: numeral_2_eq_2 accepting_one_query_run main_loop_body_no_bytes
        main_keyexpr_def scenario_argv_def)
  from main_reply_payload [OF m] m show ?thesis by simp
qed

subsection \<open>The order of the queue\<close>

lemma fifo_run_invariant:
  "fifo_run ops s = (c, enq, deq) \<Longrightarrow>
   fst (snd s) = snd (snd s) @ items (fst s) \<Longrightarrow> length (items (fst s)) \<le> capacity (fst s) \<Longrightarrow>
   enq = deq @ items c \<and> length (items c) \<le> capacity c \<and> capacity c = capacity (fst s)"
proof (induction ops s rule: fifo_run.induct)
  case (1 s)
  then show ?case by simp
next
  case (2 x ops c0 enq0 deq0)
  show ?case
  proof (cases "fifo_push x c0")
    case None
    with 2 show ?thesis by simp
  next
    case (Some c')
    then have c': "c' = c0\<lparr>items := items c0 @ [x]\<rparr>" "length (items c0) < capacity c0"
      by (simp_all add: fifo_push_def split: if_splits)
    with 2 Some show ?thesis by simp
  qed
next
  case (3 ops c0 enq0 deq0)
  show ?case
  proof (cases "fifo_pop c0")
    case (Pair r c')
    show ?thesis
    proof (cases r)
      case (Item x)
      with Pair have "\<not> closed c0" "items c0 = x # items c'" "capacity c' = capacity c0"
        by (auto simp add: fifo_pop_def split: if_splits list.splits)
      with 3 Pair Item show ?thesis by simp
    next
      case End_marker
      with Pair have "c' = c0"
        by (auto simp add: fifo_pop_def split: if_splits list.splits)
      with 3 Pair End_marker show ?thesis by simp
    next
      case Waiting
      with Pair have "c' = c0"
        by (auto simp add: fifo_pop_def split: if_splits list.splits)
      with 3 Pair Waiting show ?thesis by simp
    qed
  qed
next
  case (4 ops c0 enq0 deq0)
  then show ?case by (simp add: fifo_close_def)
qed

text \<open>
  Claim C9. The queue preserves the order between its one producer and its one
  consumer: items enqueued in the order o1, o2 are dequeued in the order o1, o2. Over
  any history of pushes, pops and a close on a new queue, the items dequeued are the
  first of the items enqueued, in the same order (the \<open>i\<close>-th item dequeued is the
  \<open>i\<close>-th item enqueued), the rest is what the queue still holds, and the queue never
  holds more than its capacity.
\<close>

theorem fifo_preserves_order:
  assumes "fifo_run ops (fifo_new cap, [], []) = (c, enq, deq)"
  shows "enq = deq @ items c
    \<and> prefix deq enq
    \<and> (\<forall>i<length deq. deq ! i = enq ! i)
    \<and> length (items c) \<le> cap"
proof -
  have "enq = deq @ items c \<and> length (items c) \<le> capacity c
      \<and> capacity c = capacity (fst (fifo_new cap :: 'a fifo, [] :: 'a list, [] :: 'a list))"
    by (rule fifo_run_invariant [OF assms]) (simp_all add: fifo_new_def)
  then show ?thesis
    by (auto simp add: fifo_new_def nth_append)
qed

text \<open>
  A queue of capacity 2: the third push finds room only after a pop, a pop on the empty
  queue waits, and a pop after the close yields the end marker.
\<close>

theorem fifo_preserves_order_witness:
  "fifo_run [Push (1::nat), Push 2, Push 3, Pop, Push 3, Pop, Pop, Pop, Close, Pop] (fifo_new 2, [], []) =
     (\<lparr>capacity = 2, items = [], closed = True\<rparr>, [1, 2, 3], [1, 2, 3])
   \<and> prefix [1, 2, 3] [1, 2, 3 :: nat]"
proof -
  have r: "fifo_run [Push (1::nat), Push 2, Push 3, Pop, Push 3, Pop, Pop, Pop, Close, Pop]
      (fifo_new 2, [], []) =
     (\<lparr>capacity = 2, items = [], closed = True\<rparr>, [1, 2, 3], [1, 2, 3])"
    by (simp add: fifo_new_def fifo_push_def fifo_pop_def fifo_close_def)
  from fifo_preserves_order [OF r] r show ?thesis by simp
qed

section \<open>The claim about helpers.cmake\<close>

text \<open>
  Claim C10. Every invocation of \<^verbatim>\<open>check_project_usage\<close> assigns both output
  variables in the parent scope, and \<^verbatim>\<open>is_ide\<close> is \<^verbatim>\<open>TRUE\<close> only when \<^verbatim>\<open>is_root\<close> is
  \<^verbatim>\<open>TRUE\<close>; when the project is not the root, both are \<^verbatim>\<open>FALSE\<close>. The function
  writes no other variable.
\<close>

theorem check_project_usage_outputs:
  "(check_project_usage is_root is_ide d parent is_root = Some ''TRUE''
      \<or> check_project_usage is_root is_ide d parent is_root = Some ''FALSE'')
   \<and> (check_project_usage is_root is_ide d parent is_ide = Some ''TRUE''
      \<or> check_project_usage is_root is_ide d parent is_ide = Some ''FALSE'')
   \<and> (check_project_usage is_root is_ide d parent is_ide = Some ''TRUE''
        \<longrightarrow> check_project_usage is_root is_ide d parent is_root = Some ''TRUE'')
   \<and> (CMAKE_SOURCE_DIR d \<noteq> CMAKE_CURRENT_SOURCE_DIR d
        \<longrightarrow> check_project_usage is_root is_ide d parent is_root = Some ''FALSE''
          \<and> check_project_usage is_root is_ide d parent is_ide = Some ''FALSE'')
   \<and> (\<forall>v. v \<noteq> is_root \<and> v \<noteq> is_ide
        \<longrightarrow> check_project_usage is_root is_ide d parent v = parent v)"
  by (simp add: check_project_usage_def Let_def)

text \<open>
  The project configured as the root, with its build directory under the source
  directory, and the project included from another one.
\<close>

theorem check_project_usage_outputs_witness:
  "check_project_usage ''ZENOHC_IS_ROOT'' ''ZENOHC_IS_IDE''
      \<lparr>CMAKE_SOURCE_DIR = ''/src/zenoh-c'', CMAKE_CURRENT_SOURCE_DIR = ''/src/zenoh-c'',
       CMAKE_CURRENT_BINARY_DIR = ''/src/zenoh-c/build''\<rparr> Map.empty ''ZENOHC_IS_IDE'' = Some ''TRUE''
   \<and> check_project_usage ''ZENOHC_IS_ROOT'' ''ZENOHC_IS_IDE''
      \<lparr>CMAKE_SOURCE_DIR = ''/src/zenoh-c'', CMAKE_CURRENT_SOURCE_DIR = ''/src/zenoh-c'',
       CMAKE_CURRENT_BINARY_DIR = ''/src/zenoh-c/build''\<rparr> Map.empty ''ZENOHC_IS_ROOT'' = Some ''TRUE''
   \<and> check_project_usage ''ZENOHC_IS_ROOT'' ''ZENOHC_IS_IDE''
      \<lparr>CMAKE_SOURCE_DIR = ''/src/app'', CMAKE_CURRENT_SOURCE_DIR = ''/src/app/zenoh-c'',
       CMAKE_CURRENT_BINARY_DIR = ''/src/app/zenoh-c/build''\<rparr> Map.empty ''ZENOHC_IS_IDE'' = Some ''FALSE''"
proof -
  have 1: "check_project_usage ''ZENOHC_IS_ROOT'' ''ZENOHC_IS_IDE''
      \<lparr>CMAKE_SOURCE_DIR = ''/src/zenoh-c'', CMAKE_CURRENT_SOURCE_DIR = ''/src/zenoh-c'',
       CMAKE_CURRENT_BINARY_DIR = ''/src/zenoh-c/build''\<rparr> Map.empty ''ZENOHC_IS_IDE'' = Some ''TRUE''"
    by (simp add: check_project_usage_def)
  have 2: "CMAKE_SOURCE_DIR \<lparr>CMAKE_SOURCE_DIR = ''/src/app'', CMAKE_CURRENT_SOURCE_DIR = ''/src/app/zenoh-c'',
       CMAKE_CURRENT_BINARY_DIR = ''/src/app/zenoh-c/build''\<rparr>
     \<noteq> CMAKE_CURRENT_SOURCE_DIR \<lparr>CMAKE_SOURCE_DIR = ''/src/app'', CMAKE_CURRENT_SOURCE_DIR = ''/src/app/zenoh-c'',
       CMAKE_CURRENT_BINARY_DIR = ''/src/app/zenoh-c/build''\<rparr>"
    by simp
  from 1 2
    check_project_usage_outputs [of "''ZENOHC_IS_ROOT''" "''ZENOHC_IS_IDE''"
      "\<lparr>CMAKE_SOURCE_DIR = ''/src/zenoh-c'', CMAKE_CURRENT_SOURCE_DIR = ''/src/zenoh-c'',
        CMAKE_CURRENT_BINARY_DIR = ''/src/zenoh-c/build''\<rparr>" Map.empty]
    check_project_usage_outputs [of "''ZENOHC_IS_ROOT''" "''ZENOHC_IS_IDE''"
      "\<lparr>CMAKE_SOURCE_DIR = ''/src/app'', CMAKE_CURRENT_SOURCE_DIR = ''/src/app/zenoh-c'',
        CMAKE_CURRENT_BINARY_DIR = ''/src/app/zenoh-c/build''\<rparr>" Map.empty]
  show ?thesis by blast
qed

end
